theory Spec2Isabelle
  imports Main "HOL-Library.Sublist" "HOL-Library.Multiset"
begin

section \<open>Strings, runes and the library functions the encoder calls\<close>

text \<open>
  A Go string is read by \<^verbatim>\<open>regexp\<close> and by \<^verbatim>\<open>strings.TrimSpace\<close> rune by rune; a byte that
  is not part of a valid UTF-8 sequence is read as the rune U+FFFD.  The model works on that
  rune sequence: a rune is its code point.  Every key of the four tables is valid UTF-8, so
  \<^verbatim>\<open>strings.ReplaceAll\<close>, which compares bytes, finds a key exactly where the rune
  sequences agree.
\<close>

type_synonym rune = nat
type_synonym gostring = "rune list"
type_synonym table = "(gostring \<times> gostring) list"

definition ascii :: "string \<Rightarrow> gostring" where
  "ascii = map of_char"

text \<open>
  \<^verbatim>\<open>unicode.Kannada\<close>, the range table behind \<^verbatim>\<open>\p{Kannada}\<close> (Unicode 15.0.0, the version
  of Go's \<^verbatim>\<open>unicode\<close> package): the standard library's table, not part of the repository.
\<close>

definition Kannada_ranges :: "(rune \<times> rune) list" where
  "Kannada_ranges =
    [(0x0C80, 0x0C8C), (0x0C8E, 0x0C90), (0x0C92, 0x0CA8), (0x0CAA, 0x0CB3),
     (0x0CB5, 0x0CB9), (0x0CBC, 0x0CC4), (0x0CC6, 0x0CC8), (0x0CCA, 0x0CCD),
     (0x0CD5, 0x0CD6), (0x0CDD, 0x0CDE), (0x0CE0, 0x0CE3), (0x0CE6, 0x0CEF),
     (0x0CF1, 0x0CF3)]"

definition Kannada :: "rune \<Rightarrow> bool" where
  "Kannada r = list_ex (\<lambda>(lo, hi). lo \<le> r \<and> r \<le> hi) Kannada_ranges"

text \<open>\<^verbatim>\<open>unicode.IsSpace\<close>, which \<^verbatim>\<open>strings.TrimSpace\<close> uses.\<close>

definition IsSpace :: "rune \<Rightarrow> bool" where
  "IsSpace r =
    ((0x09 \<le> r \<and> r \<le> 0x0D) \<or> r = 0x20 \<or> r = 0x85 \<or> r = 0xA0 \<or> r = 0x1680 \<or>
     (0x2000 \<le> r \<and> r \<le> 0x200A) \<or> r = 0x2028 \<or> r = 0x2029 \<or> r = 0x202F \<or>
     r = 0x205F \<or> r = 0x3000)"

definition TrimSpace :: "gostring \<Rightarrow> gostring" where
  "TrimSpace s = rev (dropWhile IsSpace (rev (dropWhile IsSpace s)))"

text \<open>
  \<^verbatim>\<open>strings.ReplaceAll(s, old, new)\<close>: the occurrences of \<open>old\<close> are taken from the left and
  do not overlap.  An empty \<open>old\<close> matches before every rune and at the end.
\<close>

fun replace_from :: "gostring \<Rightarrow> gostring \<Rightarrow> gostring \<Rightarrow> gostring" where
  "replace_from [] old new = []"
| "replace_from (c # cs) old new =
     (if prefix old (c # cs) then new @ replace_from (drop (length old - 1) cs) old new
      else c # replace_from cs old new)"

definition ReplaceAll :: "gostring \<Rightarrow> gostring \<Rightarrow> gostring \<Rightarrow> gostring" where
  "ReplaceAll s old new =
     (if old = [] then new @ concat (map (\<lambda>c. c # new) s) else replace_from s old new)"

text \<open>
  A compiled one-rune character class such as \<^verbatim>\<open>[^0-9A-Z]\<close> is the predicate of the runes
  it matches; \<^verbatim>\<open>ReplaceAllString\<close> replaces each of them.
\<close>

definition ReplaceAllString :: "(rune \<Rightarrow> bool) \<Rightarrow> gostring \<Rightarrow> gostring \<Rightarrow> gostring" where
  "ReplaceAllString re src repl = concat (map (\<lambda>r. if re r then repl else [r]) src)"

text \<open>
  The three patterns \<^verbatim>\<open>New\<close> builds all have the shape \<^verbatim>\<open>((g1|...|gn)(m1|...|mk))\<close>, where the
  alternatives are table keys (letters of the script, none of them a metacharacter).  Such a
  pattern is kept as its two lists of alternatives, in the order they were joined.
\<close>

record Regexp =
  glyph_alts :: "gostring list"
  mod_alts :: "gostring list"

text \<open>
  A match that starts at the head of \<open>s\<close>, with Go's leftmost-first preference: the glyph
  alternatives are tried in order; after one that matches, the modifier alternatives are tried
  in order; when none of them matches, the search falls back to the next glyph alternative.
\<close>

fun first_alt :: "gostring list \<Rightarrow> gostring \<Rightarrow> gostring option" where
  "first_alt [] s = None"
| "first_alt (a # as) s = (if prefix a s then Some a else first_alt as s)"

fun match_alts :: "gostring list \<Rightarrow> gostring list \<Rightarrow> gostring \<Rightarrow> (gostring \<times> gostring) option" where
  "match_alts [] ms s = None"
| "match_alts (g # gs) ms s =
     (if prefix g s then
        (case first_alt ms (drop (length g) s) of
           Some m \<Rightarrow> Some (g, m)
         | None \<Rightarrow> match_alts gs ms s)
      else match_alts gs ms s)"

definition match_here :: "Regexp \<Rightarrow> gostring \<Rightarrow> (gostring \<times> gostring) option" where
  "match_here re s = match_alts (glyph_alts re) (mod_alts re) s"

text \<open>
  \<^verbatim>\<open>FindAllStringSubmatch(s, -1)\<close>: successive matches from the left that do not overlap; each
  is the list of the whole match and the three groups.  The flag says that the previous match
  ended at this position, where Go drops an empty match; after an empty match the search moves
  on by one rune.
\<close>

fun FindAllStringSubmatch :: "Regexp \<Rightarrow> bool \<Rightarrow> gostring \<Rightarrow> gostring list list" where
  "FindAllStringSubmatch re adj [] =
     (case match_here re [] of
        None \<Rightarrow> []
      | Some (g, m) \<Rightarrow> if adj then [] else [[g @ m, g @ m, g, m]])"
| "FindAllStringSubmatch re adj (c # cs) =
     (case match_here re (c # cs) of
        None \<Rightarrow> FindAllStringSubmatch re False cs
      | Some (g, m) \<Rightarrow>
          if g @ m = [] then
            (if adj then [] else [[g @ m, g @ m, g, m]]) @ FindAllStringSubmatch re False cs
          else [g @ m, g @ m, g, m] #
               FindAllStringSubmatch re True (drop (length (g @ m) - 1) cs))"

declare FindAllStringSubmatch.simps [simp del]

section \<open>The glyph tables\<close>

text \<open>The four maps of the package, each entry in the order the source lists it.\<close>

definition vowels :: table where
  "vowels =
    [([0x0C85], ascii ''A''), ([0x0C86], ascii ''A''), ([0x0C87], ascii ''I''),
     ([0x0C88], ascii ''I''), ([0x0C89], ascii ''U''), ([0x0C8A], ascii ''U''),
     ([0x0C8B], ascii ''R''), ([0x0C8E], ascii ''E''), ([0x0C8F], ascii ''E''),
     ([0x0C90], ascii ''AI''), ([0x0C92], ascii ''O''), ([0x0C93], ascii ''O''),
     ([0x0C94], ascii ''O'')]"

definition consonants :: table where
  "consonants =
    [([0x0C95], ascii ''K''), ([0x0C96], ascii ''K''), ([0x0C97], ascii ''K''),
     ([0x0C98], ascii ''K''), ([0x0C99], ascii ''NG''), ([0x0C9A], ascii ''C''),
     ([0x0C9B], ascii ''C''), ([0x0C9C], ascii ''J''), ([0x0C9D], ascii ''J''),
     ([0x0C9E], ascii ''NJ''), ([0x0C9F], ascii ''T''), ([0x0CA0], ascii ''T''),
     ([0x0CA1], ascii ''T''), ([0x0CA2], ascii ''T''), ([0x0CA3], ascii ''N1''),
     ([0x0CA4], ascii ''0''), ([0x0CA5], ascii ''0''), ([0x0CA6], ascii ''0''),
     ([0x0CA7], ascii ''0''), ([0x0CA8], ascii ''N''), ([0x0CAA], ascii ''P''),
     ([0x0CAB], ascii ''F''), ([0x0CAC], ascii ''B''), ([0x0CAD], ascii ''B''),
     ([0x0CAE], ascii ''M''), ([0x0CAF], ascii ''Y''), ([0x0CB0], ascii ''R''),
     ([0x0CB2], ascii ''L''), ([0x0CB5], ascii ''V''), ([0x0CB6], ascii ''S1''),
     ([0x0CB7], ascii ''S1''), ([0x0CB8], ascii ''S''), ([0x0CB9], ascii ''H''),
     ([0x0CB3], ascii ''L1''), ([0x0CDE], ascii ''Z''), ([0x0CB1], ascii ''R1'')]"

definition compounds :: table where
  "compounds =
    [([0x0C95, 0x0CCD, 0x0C95], ascii ''K2''), ([0x0C97, 0x0CCD, 0x0C97, 0x0CBE], ascii ''K''), ([0x0C99, 0x0CCD, 0x0C99], ascii ''NG''),
     ([0x0C9A, 0x0CCD, 0x0C9A], ascii ''C2''), ([0x0C9C, 0x0CCD, 0x0C9C], ascii ''J''), ([0x0C9E, 0x0CCD, 0x0C9E], ascii ''NJ''),
     ([0x0C9F, 0x0CCD, 0x0C9F], ascii ''T2''), ([0x0CA3, 0x0CCD, 0x0CA3], ascii ''N2''), ([0x0CA4, 0x0CCD, 0x0CA4], ascii ''0''),
     ([0x0CA6, 0x0CCD, 0x0CA6], ascii ''D''), ([0x0CA6, 0x0CCD, 0x0CA7], ascii ''D''), ([0x0CA8, 0x0CCD, 0x0CA8], ascii ''NN''),
     ([0x0CAC, 0x0CCD, 0x0CAC], ascii ''B''), ([0x0CAA, 0x0CCD, 0x0CAA], ascii ''P2''), ([0x0CAE, 0x0CCD, 0x0CAE], ascii ''M2''),
     ([0x0CAF, 0x0CCD, 0x0CAF], ascii ''Y''), ([0x0CB2, 0x0CCD, 0x0CB2], ascii ''L2''), ([0x0CB5, 0x0CCD, 0x0CB5], ascii ''V''),
     ([0x0CB6, 0x0CCD, 0x0CB6], ascii ''S1''), ([0x0CB8, 0x0CCD, 0x0CB8], ascii ''S''), ([0x0CB3, 0x0CCD, 0x0CB3], ascii ''L12''),
     ([0x0C95, 0x0CCD, 0x0CB7], ascii ''KS1'')]"

definition modifiers :: table where
  "modifiers =
    [([0x0CBE], ascii ''''), ([0x0C83], ascii ''''), ([0x0CCD], ascii ''''),
     ([0x0CC3], ascii ''R''), ([0x0C82], ascii ''3''), ([0x0CBF], ascii ''4''),
     ([0x0CC0], ascii ''4''), ([0x0CC1], ascii ''5''), ([0x0CC2], ascii ''5''),
     ([0x0CC6], ascii ''6''), ([0x0CC7], ascii ''6''), ([0x0CC8], ascii ''7''),
     ([0x0CCA], ascii ''8''), ([0x0CCB], ascii ''8''), ([0x0CCC], ascii ''9''),
     ([0x0D57], ascii ''9'')]"

section \<open>The package-level patterns\<close>

text \<open>\<^verbatim>\<open>[1,2,4-9]\<close>: the comma is a member of the class like the digits.\<close>

definition regexKey0 :: "rune \<Rightarrow> bool" where
  "regexKey0 r = (r = 0x31 \<or> r = 0x2C \<or> r = 0x32 \<or> (0x34 \<le> r \<and> r \<le> 0x39))"

definition regexKey1 :: "rune \<Rightarrow> bool" where
  "regexKey1 r = (r = 0x32 \<or> r = 0x2C \<or> (0x34 \<le> r \<and> r \<le> 0x39))"

definition regexNonTulu :: "rune \<Rightarrow> bool" where
  "regexNonTulu r = (\<not> Kannada r)"

definition regexAlphaNum :: "rune \<Rightarrow> bool" where
  "regexAlphaNum r = (\<not> ((0x30 \<le> r \<and> r \<le> 0x39) \<or> (0x41 \<le> r \<and> r \<le> 0x5A)))"

section \<open>The encoder\<close>

text \<open>
  \<^verbatim>\<open>range\<close> over a Go map visits the entries in an order the language leaves open, and a new
  one each time.  An iteration is the four tables in the order one run visits them; it is
  admissible when each list is a rearrangement of the map's entries.
\<close>

record iteration =
  compounds_seq :: table
  consonants_seq :: table
  vowels_seq :: table
  modifiers_seq :: table

definition admissible :: "iteration \<Rightarrow> bool" where
  "admissible it =
     (mset (compounds_seq it) = mset compounds \<and> mset (consonants_seq it) = mset consonants \<and>
      mset (vowels_seq it) = mset vowels \<and> mset (modifiers_seq it) = mset modifiers)"

definition source_order :: iteration where
  "source_order =
     \<lparr>compounds_seq = compounds, consonants_seq = consonants, vowels_seq = vowels,
      modifiers_seq = modifiers\<rparr>"

record TLPhone =
  modCompounds :: Regexp
  modConsonants :: Regexp
  modVowels :: Regexp

definition New :: "iteration \<Rightarrow> TLPhone" where
  "New it =
     (let mods = map fst (modifiers_seq it) in
      \<lparr>modCompounds = \<lparr>glyph_alts = map fst (compounds_seq it), mod_alts = mods\<rparr>,
       modConsonants = \<lparr>glyph_alts = map fst (consonants_seq it), mod_alts = mods\<rparr>,
       modVowels = \<lparr>glyph_alts = map fst (vowels_seq it), mod_alts = mods\<rparr>\<rparr>)"

definition replaceModifiedGlyphs :: "gostring \<Rightarrow> table \<Rightarrow> Regexp \<Rightarrow> gostring" where
  "replaceModifiedGlyphs input glyphs r =
     fold (\<lambda>matches inp.
             fold (\<lambda>m inp'. case map_of glyphs m of Some rep \<Rightarrow> ReplaceAll inp' m rep
                                                   | None \<Rightarrow> inp')
                  matches inp)
          (FindAllStringSubmatch r False input) input"

definition braces :: "gostring \<Rightarrow> gostring" where
  "braces v = ascii ''{'' @ v @ ascii ''}''"

definition replaceGrouped :: "table \<Rightarrow> gostring \<Rightarrow> gostring" where
  "replaceGrouped kvs input = fold (\<lambda>(k, v) inp. ReplaceAll inp k (braces v)) kvs input"

definition replacePlain :: "table \<Rightarrow> gostring \<Rightarrow> gostring" where
  "replacePlain kvs input = fold (\<lambda>(k, v) inp. ReplaceAll inp k v) kvs input"

definition substitute :: "TLPhone \<Rightarrow> iteration \<Rightarrow> gostring \<Rightarrow> gostring" where
  "substitute k it input0 =
     (let input1 = replaceModifiedGlyphs input0 compounds (modCompounds k);
          input2 = replaceGrouped (compounds_seq it) input1;
          input3 = replaceModifiedGlyphs input2 consonants (modConsonants k);
          input4 = replaceModifiedGlyphs input3 vowels (modVowels k);
          input5 = replaceGrouped (consonants_seq it) input4;
          input6 = replaceGrouped (vowels_seq it) input5;
          input7 = replacePlain (modifiers_seq it) input6
      in ReplaceAllString regexAlphaNum input7 [])"

definition process :: "TLPhone \<Rightarrow> iteration \<Rightarrow> gostring \<Rightarrow> gostring" where
  "process k it input =
     substitute k it (ReplaceAllString regexNonTulu (TrimSpace input) [])"

definition Encode :: "TLPhone \<Rightarrow> iteration \<Rightarrow> gostring \<Rightarrow> gostring \<times> gostring \<times> gostring" where
  "Encode k it input =
     (let key2 = process k it input;
          key1 = ReplaceAllString regexKey1 key2 [];
          key0 = ReplaceAllString regexKey0 key2 []
      in (key0, key1, key2))"

text \<open>
  The steps of \<open>substitute\<close> in two parts, to speak of the string between them: the two
  passes over the compounds, and the passes over single consonants, vowels and modifiers.
\<close>

definition compound_passes :: "TLPhone \<Rightarrow> iteration \<Rightarrow> gostring \<Rightarrow> gostring" where
  "compound_passes k it input0 =
     replaceGrouped (compounds_seq it) (replaceModifiedGlyphs input0 compounds (modCompounds k))"

definition single_passes :: "TLPhone \<Rightarrow> iteration \<Rightarrow> gostring \<Rightarrow> gostring" where
  "single_passes k it input2 =
     (let input3 = replaceModifiedGlyphs input2 consonants (modConsonants k);
          input4 = replaceModifiedGlyphs input3 vowels (modVowels k);
          input5 = replaceGrouped (consonants_seq it) input4;
          input6 = replaceGrouped (vowels_seq it) input5
      in replacePlain (modifiers_seq it) input6)"

text \<open>The loop of \<open>replaceModifiedGlyphs\<close> over a given list of matches.\<close>

definition apply_matches :: "table \<Rightarrow> gostring list list \<Rightarrow> gostring \<Rightarrow> gostring" where
  "apply_matches glyphs ms input =
     fold (\<lambda>matches inp.
             fold (\<lambda>m inp'. case map_of glyphs m of Some rep \<Rightarrow> ReplaceAll inp' m rep
                                                   | None \<Rightarrow> inp')
                  matches inp)
          ms input"

section \<open>The second source file\<close>

text \<open>
  The repository holds a second file of the same package with the same tables and the same
  steps.  It differs in three places: it compiles its patterns with \<^verbatim>\<open>regexp.Compile\<close> and
  discards the error, its script filter is \<^verbatim>\<open>[\P{Tulu}]\<close>, and it trims with
  \<^verbatim>\<open>strings.Trim(input, "")\<close>, which returns its argument.  Its functions carry a prime here.
\<close>

datatype panic = CompileError | NilPointerDereference

text \<open>
  The lookup of the name in \<^verbatim>\<open>\p{name}\<close> by \<^verbatim>\<open>regexp/syntax\<close>, in \<^verbatim>\<open>unicode.Categories\<close> and
  \<^verbatim>\<open>unicode.Scripts\<close>, for the names the repository writes: \<^verbatim>\<open>Kannada\<close> is a script of the
  standard library's tables, \<^verbatim>\<open>Tulu\<close> is in neither table.
\<close>

definition unicodeTable :: "string \<Rightarrow> (rune \<Rightarrow> bool) option" where
  "unicodeTable name = (if name = ''Kannada'' then Some Kannada else None)"

text \<open>\<^verbatim>\<open>regexp.Compile\<close> and \<^verbatim>\<open>regexp.MustCompile\<close> on the pattern \<^verbatim>\<open>[\P{name}]\<close>.\<close>

definition Compile_not_in :: "string \<Rightarrow> (rune \<Rightarrow> bool) option" where
  "Compile_not_in name = map_option (\<lambda>t r. \<not> t r) (unicodeTable name)"

definition MustCompile_not_in :: "string \<Rightarrow> panic + (rune \<Rightarrow> bool)" where
  "MustCompile_not_in name =
     (case Compile_not_in name of None \<Rightarrow> Inl CompileError | Some re \<Rightarrow> Inr re)"

text \<open>The error of \<^verbatim>\<open>Compile\<close> is dropped; \<open>None\<close> is the nil pointer left in the variable.\<close>

definition regexNonTulu' :: "(rune \<Rightarrow> bool) option" where
  "regexNonTulu' = Compile_not_in ''Tulu''"

definition Trim :: "gostring \<Rightarrow> gostring \<Rightarrow> gostring" where
  "Trim s cutset =
     (if s = [] \<or> cutset = [] then s
      else rev (dropWhile (\<lambda>r. r \<in> set cutset) (rev (dropWhile (\<lambda>r. r \<in> set cutset) s))))"

definition process' :: "TLPhone \<Rightarrow> iteration \<Rightarrow> gostring \<Rightarrow> panic + gostring" where
  "process' k it input =
     (case regexNonTulu' of
        None \<Rightarrow> Inl NilPointerDereference
      | Some re \<Rightarrow> Inr (substitute k it (ReplaceAllString re (Trim input []) [])))"

definition Encode' ::
  "TLPhone \<Rightarrow> iteration \<Rightarrow> gostring \<Rightarrow> panic + gostring \<times> gostring \<times> gostring" where
  "Encode' k it input =
     (case process' k it input of
        Inl p \<Rightarrow> Inl p
      | Inr key2 \<Rightarrow>
          Inr (ReplaceAllString regexKey0 key2 [], ReplaceAllString regexKey1 key2 [], key2))"

section \<open>Classes of output runes\<close>

definition alnum :: "rune \<Rightarrow> bool" where
  "alnum r = ((0x30 \<le> r \<and> r \<le> 0x39) \<or> (0x41 \<le> r \<and> r \<le> 0x5A))"

definition digit :: "rune \<Rightarrow> bool" where
  "digit r = (0x30 \<le> r \<and> r \<le> 0x39)"

section \<open>Notions used to compare iteration orders\<close>

text \<open>No alternative of the list is a proper prefix of another one.\<close>

definition prefix_free :: "gostring list \<Rightarrow> bool" where
  "prefix_free ks = (\<forall>a\<in>set ks. \<forall>b\<in>set ks. prefix a b \<longrightarrow> a = b)"

text \<open>Replacing one rune everywhere.\<close>

definition subst_rune :: "rune \<Rightarrow> gostring \<Rightarrow> gostring \<Rightarrow> gostring" where
  "subst_rune k v s = concat (map (\<lambda>c. if c = k then v else [c]) s)"

text \<open>
  A table whose keys are single runes outside ASCII, no key twice, and whose codes are ASCII.
\<close>

definition glyph_table :: "table \<Rightarrow> bool" where
  "glyph_table T =
     (distinct (map fst T) \<and>
      (\<forall>(k, v)\<in>set T. length k = 1 \<and> (\<forall>r\<in>set k. 128 \<le> r) \<and> (\<forall>r\<in>set v. r < 128)))"

text \<open>
  The shape of a compound key: consonant, virama (U+0CCD), consonant, and for one key the vowel
  sign U+0CBE after them.  Of the consonants only what the proofs use is kept: they are neither
  ASCII nor one of the two signs.
\<close>

definition conjunct_key :: "gostring \<Rightarrow> bool" where
  "conjunct_key k =
     (case k of
        [c1, x, c2] \<Rightarrow>
          128 \<le> c1 \<and> c1 \<noteq> 0x0CCD \<and> c1 \<noteq> 0x0CBE \<and> x = 0x0CCD \<and>
          128 \<le> c2 \<and> c2 \<noteq> 0x0CCD \<and> c2 \<noteq> 0x0CBE
      | [c1, x, c2, y] \<Rightarrow>
          128 \<le> c1 \<and> c1 \<noteq> 0x0CCD \<and> c1 \<noteq> 0x0CBE \<and> x = 0x0CCD \<and>
          128 \<le> c2 \<and> c2 \<noteq> 0x0CCD \<and> c2 \<noteq> 0x0CBE \<and> y = 0x0CBE
      | _ \<Rightarrow> False)"



definition ascii_only :: "gostring \<Rightarrow> bool" where
  "ascii_only v = list_all (\<lambda>r. r < 128) v"



section \<open>Evaluation on concrete inputs\<close>

lemma New_fields:
  "modCompounds (New it) =
     \<lparr>glyph_alts = map fst (compounds_seq it), mod_alts = map fst (modifiers_seq it)\<rparr>"
  "modConsonants (New it) =
     \<lparr>glyph_alts = map fst (consonants_seq it), mod_alts = map fst (modifiers_seq it)\<rparr>"
  "modVowels (New it) =
     \<lparr>glyph_alts = map fst (vowels_seq it), mod_alts = map fst (modifiers_seq it)\<rparr>"
  by (simp_all add: New_def Let_def)

lemma source_order_fields:
  "compounds_seq source_order = compounds" "consonants_seq source_order = consonants"
  "vowels_seq source_order = vowels" "modifiers_seq source_order = modifiers"
  by (simp_all add: source_order_def)

lemmas tables = compounds_def consonants_def vowels_def modifiers_def

lemmas run =
  New_fields source_order_fields tables match_here_def FindAllStringSubmatch.simps
  replaceModifiedGlyphs_def replaceGrouped_def replacePlain_def braces_def ascii_def
  ReplaceAll_def ReplaceAllString_def regexAlphaNum_def regexNonTulu_def
  Kannada_def Kannada_ranges_def TrimSpace_def IsSpace_def process_def substitute_def

lemma ReplaceAllString_Nil: "ReplaceAllString re s [] = filter (\<lambda>r. \<not> re r) s"
  by (induction s) (simp_all add: ReplaceAllString_def)

lemma Encode_keys:
  "Encode k it s =
     (filter (\<lambda>r. \<not> regexKey0 r) (process k it s),
      filter (\<lambda>r. \<not> regexKey1 r) (process k it s), process k it s)"
  by (simp add: Encode_def Let_def ReplaceAllString_Nil)

lemma process_source_makkalu:
  "process (New source_order) source_order [0x0CAE, 0x0C95, 0x0CCD, 0x0C95, 0x0CB3, 0x0CC1] =
   ascii ''MK2L15''"
  by (simp add: run)

lemma Encode_source_makkalu:
  "Encode (New source_order) source_order [0x0CAE, 0x0C95, 0x0CCD, 0x0C95, 0x0CB3, 0x0CC1] =
   (ascii ''MKL'', ascii ''MKL1'', ascii ''MK2L15'')"
  unfolding Encode_keys process_source_makkalu
  by (simp add: ascii_def regexKey0_def regexKey1_def)

lemma process_source_vrtti:
  "process (New source_order) source_order [0x0CB5, 0x0CC3, 0x0CA4, 0x0CCD, 0x0CA4, 0x0CBF] =
   ascii ''VR04''"
  by (simp add: run)

lemma Encode_source_vrtti:
  "Encode (New source_order) source_order [0x0CB5, 0x0CC3, 0x0CA4, 0x0CCD, 0x0CA4, 0x0CBF] =
   (ascii ''VR0'', ascii ''VR0'', ascii ''VR04'')"
  unfolding Encode_keys process_source_vrtti
  by (simp add: ascii_def regexKey0_def regexKey1_def)

section \<open>The result does not depend on the order of the alternatives\<close>

lemma prefix_free_same:
  assumes "prefix_free ks" "a \<in> set ks" "b \<in> set ks" "prefix a s" "prefix b s"
  shows "a = b"
proof -
  from \<open>prefix a s\<close> \<open>prefix b s\<close> have "prefix a b \<or> prefix b a"
    by (rule prefix_same_cases)
  then show ?thesis
  proof
    assume "prefix a b"
    with assms(1-3) show ?thesis unfolding prefix_free_def by blast
  next
    assume "prefix b a"
    with assms(1-3) have "b = a" unfolding prefix_free_def by blast
    then show ?thesis by simp
  qed
qed

lemma first_alt_prefix: "first_alt ms s = Some m \<Longrightarrow> m \<in> set ms \<and> prefix m s"
  by (induction ms) (simp_all split: if_splits)

lemma first_alt_None: "first_alt ms s = None \<longleftrightarrow> (\<forall>m\<in>set ms. \<not> prefix m s)"
  by (induction ms) simp_all

lemma first_alt_Some_iff:
  assumes "prefix_free ms"
  shows "first_alt ms s = Some m \<longleftrightarrow> m \<in> set ms \<and> prefix m s"
proof
  assume "first_alt ms s = Some m"
  then show "m \<in> set ms \<and> prefix m s" by (rule first_alt_prefix)
next
  assume m: "m \<in> set ms \<and> prefix m s"
  then have "first_alt ms s \<noteq> None" unfolding first_alt_None by blast
  then obtain m' where m': "first_alt ms s = Some m'" by blast
  from first_alt_prefix [OF m'] have "m' \<in> set ms" "prefix m' s" by simp_all
  with m assms have "m' = m" by (blast intro: prefix_free_same)
  with m' show "first_alt ms s = Some m" by simp
qed

lemma match_alts_sound:
  "match_alts gs ms s = Some (g, m) \<Longrightarrow>
   g \<in> set gs \<and> m \<in> set ms \<and> prefix g s \<and> prefix m (drop (length g) s)"
proof (induction gs)
  case Nil
  then show ?case by simp
next
  case (Cons a gs)
  show ?case
  proof (cases "prefix a s")
    case True
    show ?thesis
    proof (cases "first_alt ms (drop (length a) s)")
      case None
      with True Cons.prems have "match_alts gs ms s = Some (g, m)" by simp
      from Cons.IH [OF this] show ?thesis by simp
    next
      case (Some m')
      with True Cons.prems have "g = a" "m' = m" by simp_all
      with True Some first_alt_prefix [OF Some] show ?thesis by simp
    qed
  next
    case False
    with Cons.prems have "match_alts gs ms s = Some (g, m)" by simp
    from Cons.IH [OF this] show ?thesis by simp
  qed
qed

lemma prefix_append_drop: "prefix (g @ m) s \<longleftrightarrow> prefix g s \<and> prefix m (drop (length g) s)"
  by (auto simp: prefix_def)

lemma match_alts_complete:
  assumes pf: "prefix_free gs" "prefix_free ms"
    and g: "g \<in> set gs" "prefix g s"
    and m: "first_alt ms (drop (length g) s) = Some m"
    and sub: "set as \<subseteq> set gs" and mem: "g \<in> set as"
  shows "match_alts as ms s = Some (g, m)"
  using sub mem
proof (induction as)
  case Nil
  then show ?case by simp
next
  case (Cons a as)
  show ?case
  proof (cases "prefix a s")
    case True
    from Cons.prems have "a \<in> set gs" by simp
    from prefix_free_same [OF pf(1) this g(1) True g(2)] have "a = g" .
    with g m show ?thesis by simp
  next
    case False
    with g Cons.prems have "g \<in> set as" "set as \<subseteq> set gs" by auto
    with Cons.IH False show ?thesis by simp
  qed
qed

lemma match_alts_Some_iff:
  assumes "prefix_free gs" "prefix_free ms"
  shows "match_alts gs ms s = Some (g, m) \<longleftrightarrow> g \<in> set gs \<and> m \<in> set ms \<and> prefix (g @ m) s"
proof
  assume "match_alts gs ms s = Some (g, m)"
  from match_alts_sound [OF this] show "g \<in> set gs \<and> m \<in> set ms \<and> prefix (g @ m) s"
    by (simp add: prefix_append_drop)
next
  assume r: "g \<in> set gs \<and> m \<in> set ms \<and> prefix (g @ m) s"
  then have g: "g \<in> set gs" "prefix g s"
    and m: "first_alt ms (drop (length g) s) = Some m"
    by (simp_all add: prefix_append_drop first_alt_Some_iff [OF assms(2)])
  from match_alts_complete [OF assms g m subset_refl g(1)]
  show "match_alts gs ms s = Some (g, m)" .
qed

lemma match_here_rearranged:
  assumes "prefix_free (glyph_alts r1)" "prefix_free (mod_alts r1)"
    and "set (glyph_alts r2) = set (glyph_alts r1)" "set (mod_alts r2) = set (mod_alts r1)"
  shows "match_here r2 s = match_here r1 s"
proof -
  have pf: "prefix_free (glyph_alts r2)" "prefix_free (mod_alts r2)"
    using assms by (simp_all add: prefix_free_def)
  have *: "match_here r2 s = Some (g, m) \<longleftrightarrow> match_here r1 s = Some (g, m)" for g m
    unfolding match_here_def
    by (simp only: match_alts_Some_iff [OF pf] match_alts_Some_iff [OF assms(1,2)] assms(3,4))
  show ?thesis
  proof (cases "match_here r2 s")
    case None
    show ?thesis
    proof (cases "match_here r1 s")
      case None
      with \<open>match_here r2 s = None\<close> show ?thesis by simp
    next
      case (Some gm)
      obtain g m where "gm = (g, m)" by (cases gm)
      with Some * [of g m] None show ?thesis by simp
    qed
  next
    case (Some gm)
    obtain g m where "gm = (g, m)" by (cases gm)
    with Some * [of g m] show ?thesis by simp
  qed
qed

lemma FindAll_rearranged:
  assumes eq: "\<And>s. match_here r2 s = match_here r1 s"
  shows "FindAllStringSubmatch r2 adj s = FindAllStringSubmatch r1 adj s"
proof (induction "length s" arbitrary: adj s rule: less_induct)
  case less
  show ?case
  proof (cases s)
    case Nil
    then show ?thesis by (simp add: FindAllStringSubmatch.simps eq)
  next
    case (Cons c cs)
    have 1: "FindAllStringSubmatch r2 b cs = FindAllStringSubmatch r1 b cs" for b
      by (rule less) (simp add: Cons)
    have 2: "FindAllStringSubmatch r2 b (drop n cs) = FindAllStringSubmatch r1 b (drop n cs)" for b n
      by (rule less) (simp add: Cons)
    show ?thesis
      unfolding Cons FindAllStringSubmatch.simps eq 1 2 ..
  qed
qed

lemma replaceModifiedGlyphs_rearranged:
  assumes "\<And>s. match_here r2 s = match_here r1 s"
  shows "replaceModifiedGlyphs input glyphs r2 = replaceModifiedGlyphs input glyphs r1"
  unfolding replaceModifiedGlyphs_def FindAll_rearranged [of r2 r1, OF assms] ..

lemma prefix_free_single: "\<forall>k\<in>set ks. length k = 1 \<Longrightarrow> prefix_free ks"
  unfolding prefix_free_def
proof (intro ballI impI)
  fix a b assume "\<forall>k\<in>set ks. length k = 1" "a \<in> set ks" "b \<in> set ks" "prefix a b"
  then have "length a = length b" by simp
  with \<open>prefix a b\<close> show "a = b" by (auto simp: prefix_def)
qed

lemma consonant_keys_single: "\<forall>k\<in>set (map fst consonants). length k = 1"
  by (simp add: consonants_def)

lemma vowel_keys_single: "\<forall>k\<in>set (map fst vowels). length k = 1"
  by (simp add: vowels_def)

lemma modifier_keys_single: "\<forall>k\<in>set (map fst modifiers). length k = 1"
  by (simp add: modifiers_def)

lemma compound_keys_prefix_free: "prefix_free (map fst compounds)"
  by (simp add: prefix_free_def compounds_def)

lemma replace_from_single: "replace_from s [k] v = subst_rune k v s"
  by (induction s) (auto simp: subst_rune_def)

lemma ReplaceAll_single: "ReplaceAll s [k] v = subst_rune k v s"
  by (simp add: ReplaceAll_def replace_from_single)

lemma subst_rune_append: "subst_rune k v (a @ b) = subst_rune k v a @ subst_rune k v b"
  by (simp add: subst_rune_def)

lemma subst_rune_absent: "k \<notin> set s \<Longrightarrow> subst_rune k v s = s"
  by (induction s) (simp_all add: subst_rune_def)

lemma subst_rune_commute:
  assumes "k1 \<noteq> k2" "k1 \<notin> set v2" "k2 \<notin> set v1"
  shows "subst_rune k2 v2 (subst_rune k1 v1 s) = subst_rune k1 v1 (subst_rune k2 v2 s)"
proof (induction s)
  case Nil
  then show ?case by (simp add: subst_rune_def)
next
  case (Cons c s)
  have c: "subst_rune k v (c # s) = (if c = k then v else [c]) @ subst_rune k v s" for k v
    by (simp add: subst_rune_def)
  show ?case
    using assms Cons.IH
    by (simp add: c subst_rune_append subst_rune_absent)
      (simp add: subst_rune_def)
qed

lemma glyph_table_entry:
  assumes "glyph_table T" "(k, v) \<in> set T"
  obtains c where "k = [c]" "128 \<le> c" "\<forall>r\<in>set v. r < 128"
proof -
  from assms have l: "length k = 1" and k: "\<forall>r\<in>set k. 128 \<le> r" and v: "\<forall>r\<in>set v. r < 128"
    unfolding glyph_table_def by blast+
  from l obtain c where "k = [c]" by (cases k) auto
  with k v that show thesis by simp
qed

lemma glyph_table_commute:
  assumes T: "glyph_table T" and x: "x \<in> set T" and y: "y \<in> set T"
    and w: "\<And>v. \<forall>r\<in>set v. r < 128 \<Longrightarrow> \<forall>r\<in>set (w v). r < 128"
  shows "(\<lambda>(k, v) inp. ReplaceAll inp k (w v)) x \<circ> (\<lambda>(k, v) inp. ReplaceAll inp k (w v)) y =
         (\<lambda>(k, v) inp. ReplaceAll inp k (w v)) y \<circ> (\<lambda>(k, v) inp. ReplaceAll inp k (w v)) x"
proof (cases "x = y")
  case True
  then show ?thesis by simp
next
  case False
  obtain k1 v1 k2 v2 where xy: "x = (k1, v1)" "y = (k2, v2)" by (cases x, cases y)
  from glyph_table_entry [OF T x [unfolded xy]]
  obtain a where a: "k1 = [a]" "128 \<le> a" "\<forall>r\<in>set v1. r < 128" .
  from glyph_table_entry [OF T y [unfolded xy]]
  obtain b where b: "k2 = [b]" "128 \<le> b" "\<forall>r\<in>set v2. r < 128" .
  from T have "distinct (map fst T)" by (simp add: glyph_table_def)
  with x y False xy have "k1 \<noteq> k2"
    by (metis eq_key_imp_eq_value)
  with a b have ab: "a \<noteq> b" by simp
  from w [OF a(3)] b(2) have 1: "b \<notin> set (w v1)" by fastforce
  from w [OF b(3)] a(2) have 2: "a \<notin> set (w v2)" by fastforce
  show ?thesis
    unfolding xy a b
    by (rule ext) (simp add: ReplaceAll_single subst_rune_commute [OF ab 2 1])
qed

lemma braces_ascii: "\<forall>r\<in>set v. r < 128 \<Longrightarrow> \<forall>r\<in>set (braces v). r < 128"
  by (auto simp: braces_def ascii_def)

lemma replaceGrouped_rearranged:
  assumes "glyph_table T" "mset xs = mset T"
  shows "replaceGrouped xs s = replaceGrouped T s"
proof -
  have "fold (\<lambda>(k, v) inp. ReplaceAll inp k (braces v)) T =
        fold (\<lambda>(k, v) inp. ReplaceAll inp k (braces v)) xs"
    by (rule fold_multiset_equiv)
      (simp_all add: glyph_table_commute [OF assms(1) _ _ braces_ascii] assms(2))
  then show ?thesis by (simp add: replaceGrouped_def)
qed

lemma replacePlain_rearranged:
  assumes "glyph_table T" "mset xs = mset T"
  shows "replacePlain xs s = replacePlain T s"
proof -
  have "fold (\<lambda>(k, v) inp. ReplaceAll inp k ((\<lambda>v. v) v)) T =
        fold (\<lambda>(k, v) inp. ReplaceAll inp k ((\<lambda>v. v) v)) xs"
    by (rule fold_multiset_equiv)
      (simp_all add: glyph_table_commute [OF assms(1), where w = "\<lambda>v. v"] assms(2))
  then show ?thesis by (simp add: replacePlain_def)
qed

lemma glyph_tables:
  "glyph_table consonants" "glyph_table vowels" "glyph_table modifiers"
  by (simp_all add: glyph_table_def tables ascii_def)

lemma admissible_mset:
  assumes "admissible it"
  shows "mset (compounds_seq it) = mset compounds" "mset (consonants_seq it) = mset consonants"
    "mset (vowels_seq it) = mset vowels" "mset (modifiers_seq it) = mset modifiers"
  using assms by (simp_all add: admissible_def)

lemma admissible_keys:
  assumes "admissible it"
  shows "set (map fst (compounds_seq it)) = set (map fst compounds)"
    "set (map fst (consonants_seq it)) = set (map fst consonants)"
    "set (map fst (vowels_seq it)) = set (map fst vowels)"
    "set (map fst (modifiers_seq it)) = set (map fst modifiers)"
  using admissible_mset [OF assms, THEN mset_eq_setD] by simp_all

lemma admissible_source_order: "admissible source_order"
  by (simp add: admissible_def source_order_fields)

lemma New_rearranged:
  assumes "admissible it"
  shows "match_here (modCompounds (New it)) s = match_here (modCompounds (New source_order)) s"
    "match_here (modConsonants (New it)) s = match_here (modConsonants (New source_order)) s"
    "match_here (modVowels (New it)) s = match_here (modVowels (New source_order)) s"
proof -
  note pf = prefix_free_single [OF modifier_keys_single] prefix_free_single [OF consonant_keys_single]
    prefix_free_single [OF vowel_keys_single] compound_keys_prefix_free
  show "match_here (modCompounds (New it)) s = match_here (modCompounds (New source_order)) s"
    by (rule match_here_rearranged)
      (simp_all add: New_fields source_order_fields pf admissible_keys [OF assms] del: set_map)
  show "match_here (modConsonants (New it)) s = match_here (modConsonants (New source_order)) s"
    by (rule match_here_rearranged)
      (simp_all add: New_fields source_order_fields pf admissible_keys [OF assms] del: set_map)
  show "match_here (modVowels (New it)) s = match_here (modVowels (New source_order)) s"
    by (rule match_here_rearranged)
      (simp_all add: New_fields source_order_fields pf admissible_keys [OF assms] del: set_map)
qed

lemma substitute_rearranged:
  assumes it1: "admissible it1" and it2: "admissible it2"
    and c: "replaceGrouped (compounds_seq it2)
              (replaceModifiedGlyphs s compounds (modCompounds (New source_order))) =
            replaceGrouped compounds
              (replaceModifiedGlyphs s compounds (modCompounds (New source_order)))"
  shows "substitute (New it1) it2 s = substitute (New source_order) source_order s"
proof -
  have r: "replaceModifiedGlyphs x T (modCompounds (New it1)) =
           replaceModifiedGlyphs x T (modCompounds (New source_order))"
    "replaceModifiedGlyphs x T (modConsonants (New it1)) =
     replaceModifiedGlyphs x T (modConsonants (New source_order))"
    "replaceModifiedGlyphs x T (modVowels (New it1)) =
     replaceModifiedGlyphs x T (modVowels (New source_order))" for x T
    by (rule replaceModifiedGlyphs_rearranged, rule New_rearranged [OF it1])+
  have g: "replaceGrouped (consonants_seq it2) x = replaceGrouped consonants x"
    "replaceGrouped (vowels_seq it2) x = replaceGrouped vowels x"
    "replacePlain (modifiers_seq it2) x = replacePlain modifiers x" for x
    by (simp_all add: replaceGrouped_rearranged replacePlain_rearranged glyph_tables
        admissible_mset [OF it2])
  show ?thesis
    unfolding substitute_def Let_def r c g source_order_fields ..
qed

lemma fold_one_active:
  assumes "distinct xs" "x0 \<in> set xs"
    and "\<forall>x\<in>set xs. x \<noteq> x0 \<longrightarrow> f x s = s \<and> f x s' = s'"
    and "f x0 s = s'"
  shows "fold f xs s = s'"
proof -
  have idle: "\<forall>x\<in>set ys. f x t = t \<Longrightarrow> fold f ys t = t" for ys t
    by (induction ys) simp_all
  from \<open>x0 \<in> set xs\<close> obtain ys zs where xs: "xs = ys @ x0 # zs"
    by (auto simp: in_set_conv_decomp)
  with \<open>distinct xs\<close> have "x0 \<notin> set ys" "x0 \<notin> set zs" by auto
  with assms(3) xs have "\<forall>x\<in>set ys. f x s = s" "\<forall>x\<in>set zs. f x s' = s'"
    by auto
  then have "fold f ys s = s" "fold f zs s' = s'" by (simp_all add: idle)
  with xs assms(4) show ?thesis by simp
qed

lemma compounds_distinct: "distinct compounds"
  by (simp add: compounds_def ascii_def)

lemma replaceGrouped_one_compound:
  assumes xs: "mset xs = mset compounds"
    and k0: "(k0, v0) \<in> set compounds"
    and idle: "\<forall>(k, v)\<in>set compounds. (k, v) \<noteq> (k0, v0) \<longrightarrow>
                 ReplaceAll s k (braces v) = s \<and>
                 ReplaceAll (ReplaceAll s k0 (braces v0)) k (braces v) = ReplaceAll s k0 (braces v0)"
  shows "replaceGrouped xs s = ReplaceAll s k0 (braces v0)"
proof -
  from xs have d: "distinct xs"
    by (metis compounds_distinct mset_eq_imp_distinct_iff)
  from xs have set: "set xs = set compounds" by (rule mset_eq_setD)
  show ?thesis
    unfolding replaceGrouped_def
    by (rule fold_one_active [OF d, where ?x0.0 = "(k0, v0)"])
      (use k0 idle set in auto)
qed

lemma substitute_one_compound:
  assumes it1: "admissible it1" and it2: "admissible it2"
    and s1: "replaceModifiedGlyphs s compounds (modCompounds (New source_order)) = s1"
    and k0: "(k0, v0) \<in> set compounds"
    and idle: "\<forall>(k, v)\<in>set compounds. (k, v) \<noteq> (k0, v0) \<longrightarrow>
                 ReplaceAll s1 k (braces v) = s1 \<and>
                 ReplaceAll (ReplaceAll s1 k0 (braces v0)) k (braces v) = ReplaceAll s1 k0 (braces v0)"
  shows "substitute (New it1) it2 s = substitute (New source_order) source_order s"
proof (rule substitute_rearranged [OF it1 it2])
  from it2 have "mset (compounds_seq it2) = mset compounds" by (rule admissible_mset)
  from replaceGrouped_one_compound [OF this k0 idle]
    replaceGrouped_one_compound [OF refl k0 idle]
  show "replaceGrouped (compounds_seq it2)
          (replaceModifiedGlyphs s compounds (modCompounds (New source_order))) =
        replaceGrouped compounds
          (replaceModifiedGlyphs s compounds (modCompounds (New source_order)))"
    unfolding s1 by simp
qed

lemma process_rearranged:
  assumes "admissible it1" "admissible it2"
    and "replaceModifiedGlyphs (ReplaceAllString regexNonTulu (TrimSpace input) []) compounds
           (modCompounds (New source_order)) = s1"
    and "(k0, v0) \<in> set compounds"
    and "\<forall>(k, v)\<in>set compounds. (k, v) \<noteq> (k0, v0) \<longrightarrow>
           ReplaceAll s1 k (braces v) = s1 \<and>
           ReplaceAll (ReplaceAll s1 k0 (braces v0)) k (braces v) = ReplaceAll s1 k0 (braces v0)"
  shows "process (New it1) it2 input = process (New source_order) source_order input"
  unfolding process_def using assms by (rule substitute_one_compound)

section \<open>Key derivation\<close>

lemma substitute_alnum: "r \<in> set (substitute k it s) \<Longrightarrow> alnum r"
  by (simp add: substitute_def Let_def ReplaceAllString_Nil regexAlphaNum_def alnum_def)

lemma process_alnum: "r \<in> set (process k it s) \<Longrightarrow> alnum r"
  unfolding process_def by (rule substitute_alnum)

lemma regexKey1_alnum: "alnum r \<Longrightarrow> regexKey1 r \<longleftrightarrow> r \<in> set (ascii ''2456789'')"
  unfolding alnum_def regexKey1_def by (auto simp: ascii_def)

lemma regexKey0_alnum: "alnum r \<Longrightarrow> regexKey0 r \<longleftrightarrow> r \<in> set (ascii ''12456789'')"
  unfolding alnum_def regexKey0_def by (auto simp: ascii_def)

lemma regexKey1_imp_regexKey0: "regexKey1 r \<Longrightarrow> regexKey0 r"
  by (auto simp: regexKey0_def regexKey1_def)

lemma key1_filter:
  "filter (\<lambda>r. \<not> regexKey1 r) (process k it input) =
   filter (\<lambda>r. r \<notin> set (ascii ''2456789'')) (process k it input)"
  by (rule filter_cong) (simp_all add: regexKey1_alnum process_alnum)

lemma key0_filter:
  "filter (\<lambda>r. \<not> regexKey0 r) (process k it input) =
   filter (\<lambda>r. r \<notin> set (ascii ''12456789'')) (process k it input)"
  by (rule filter_cong) (simp_all add: regexKey0_alnum process_alnum)

text \<open>
  Claim C3.  Whatever the input, the encoder and the iteration orders: \<open>key1\<close> is \<open>key2\<close>
  without its runes 2, 4, 5, 6, 7, 8, 9 and \<open>key0\<close> is \<open>key2\<close> without its runes
  1, 2, 4, 5, 6, 7, 8, 9; nothing else is removed and the order is kept.  (The classes
  \<^verbatim>\<open>[2,4-9]\<close> and \<^verbatim>\<open>[1,2,4-9]\<close> also hold the comma, which \<open>key2\<close> never contains.)
\<close>

theorem keys_are_digit_filters_of_key2:
  "case Encode k it input of (key0, key1, key2) \<Rightarrow>
     key1 = filter (\<lambda>r. r \<notin> set (ascii ''2456789'')) key2 \<and>
     key0 = filter (\<lambda>r. r \<notin> set (ascii ''12456789'')) key2"
  by (simp only: Encode_keys prod.case key0_filter key1_filter)

theorem keys_are_digit_filters_of_key2_witness:
  "ascii ''MKL1'' = filter (\<lambda>r. r \<notin> set (ascii ''2456789'')) (ascii ''MK2L15'') \<and>
   ascii ''MKL'' = filter (\<lambda>r. r \<notin> set (ascii ''12456789'')) (ascii ''MK2L15'')"
  using keys_are_digit_filters_of_key2
    [of "New source_order" source_order "[0x0CAE, 0x0C95, 0x0CCD, 0x0C95, 0x0CB3, 0x0CC1]"]
  unfolding Encode_source_makkalu by simp

text \<open>
  Claim C4.  For every input, \<open>key1\<close> is a subsequence of \<open>key2\<close> and \<open>key0\<close> is a
  subsequence of \<open>key1\<close>, hence of \<open>key2\<close>: each is obtained by deleting runes only.
\<close>

theorem keys_monotonic_lossiness:
  "case Encode k it input of (key0, key1, key2) \<Rightarrow>
     subseq key1 key2 \<and> subseq key0 key1 \<and> subseq key0 key2"
proof -
  let ?p = "process k it input"
  have "filter (\<lambda>r. \<not> regexKey0 r) (filter (\<lambda>r. \<not> regexKey1 r) ?p) =
        filter (\<lambda>r. \<not> regexKey0 r) ?p"
    by (auto simp: filter_filter regexKey1_imp_regexKey0 intro: filter_cong)
  then have "subseq (filter (\<lambda>r. \<not> regexKey0 r) ?p) (filter (\<lambda>r. \<not> regexKey1 r) ?p)"
    by (metis subseq_filter_left)
  then show ?thesis
    by (simp add: Encode_keys)
qed

theorem keys_monotonic_lossiness_witness:
  "subseq (ascii ''VR0'') (ascii ''VR04'') \<and> subseq (ascii ''VR0'') (ascii ''VR0'')"
  using keys_monotonic_lossiness
    [of "New source_order" source_order "[0x0CB5, 0x0CC3, 0x0CA4, 0x0CCD, 0x0CA4, 0x0CBF]"]
  unfolding Encode_source_vrtti by simp

text \<open>
  Claim C7.  The rune \<open>0\<close> is never removed by the key derivation: for every input the
  occurrences of \<open>0\<close> in \<open>key0\<close>, in \<open>key1\<close> and in \<open>key2\<close> are the same sequence, and so
  their number is the same.
\<close>

theorem zero_marker_kept:
  "case Encode k it input of (key0, key1, key2) \<Rightarrow>
     filter (\<lambda>r. r = of_char CHR ''0'') key0 = filter (\<lambda>r. r = of_char CHR ''0'') key2 \<and>
     filter (\<lambda>r. r = of_char CHR ''0'') key1 = filter (\<lambda>r. r = of_char CHR ''0'') key2 \<and>
     count_list key0 (of_char CHR ''0'') = count_list key2 (of_char CHR ''0'') \<and>
     count_list key1 (of_char CHR ''0'') = count_list key2 (of_char CHR ''0'')"
proof -
  let ?p = "process k it input"
  have 0: "filter (\<lambda>r. \<not> regexKey0 r \<and> r = 48) ?p = filter (\<lambda>r. r = 48) ?p"
    by (rule filter_cong) (auto simp: regexKey0_def)
  have 1: "filter (\<lambda>r. \<not> regexKey1 r \<and> r = 48) ?p = filter (\<lambda>r. r = 48) ?p"
    by (rule filter_cong) (auto simp: regexKey1_def)
  have c: "count_list xs (48::nat) = length (filter (\<lambda>r. r = 48) xs)" for xs
    by (induction xs) auto
  show ?thesis
    by (simp add: Encode_keys 0 1 c)
qed

theorem zero_marker_kept_witness:
  "count_list (ascii ''VR0'') (of_char CHR ''0'') = 1 \<and>
   count_list (ascii ''VR04'') (of_char CHR ''0'') = 1"
  using zero_marker_kept
    [of "New source_order" source_order "[0x0CB5, 0x0CC3, 0x0CA4, 0x0CCD, 0x0CA4, 0x0CBF]"]
  unfolding Encode_source_vrtti by (simp add: ascii_def)

text \<open>
  Claim C10.  For every input, the only digits that \<open>key0\<close> can contain are 0 and 3, and the
  only digits that \<open>key1\<close> can contain are 0, 1 and 3.
\<close>

theorem digits_left_in_key0_key1:
  "case Encode k it input of (key0, key1, key2) \<Rightarrow>
     (\<forall>r\<in>set key0. digit r \<longrightarrow> r \<in> set (ascii ''03'')) \<and>
     (\<forall>r\<in>set key1. digit r \<longrightarrow> r \<in> set (ascii ''013''))"
  by (auto simp: Encode_keys digit_def regexKey0_def regexKey1_def ascii_def)

theorem digits_left_in_key0_key1_witness:
  "of_char CHR ''1'' \<in> set (ascii ''MKL1'') \<and> digit (of_char CHR ''1'') \<and>
   of_char CHR ''1'' \<in> set (ascii ''013'')"
proof -
  have m: "of_char CHR ''1'' \<in> set (ascii ''MKL1'')" and d: "digit (of_char CHR ''1'')"
    by (simp_all add: ascii_def digit_def)
  from digits_left_in_key0_key1
    [of "New source_order" source_order "[0x0CAE, 0x0C95, 0x0CCD, 0x0C95, 0x0CB3, 0x0CC1]"]
  have "\<forall>r\<in>set (ascii ''MKL1''). digit r \<longrightarrow> r \<in> set (ascii ''013'')"
    unfolding Encode_source_makkalu by simp
  with m d show ?thesis by blast
qed

section \<open>The reference vectors and inputs without script runes\<close>

lemma process_tumba:
  assumes "admissible it1" "admissible it2"
  shows "process (New it1) it2 [0x0CA4, 0x0CC1, 0x0C82, 0x0CAC, 0x0CBE] = ascii ''053B''"
proof -
  have "process (New it1) it2 [0x0CA4, 0x0CC1, 0x0C82, 0x0CAC, 0x0CBE] =
        process (New source_order) source_order [0x0CA4, 0x0CC1, 0x0C82, 0x0CAC, 0x0CBE]"
    by (rule process_rearranged [OF assms, where ?k0.0 = "[0x0C95, 0x0CCD, 0x0C95]"
          and ?v0.0 = "ascii ''K2''" and ?s1.0 = "[0x0CA4, 0x0CC1, 0x0C82, 0x0CAC, 0x0CBE]"])
      (simp_all add: run)
  also have "\<dots> = ascii ''053B''" by (simp add: run)
  finally show ?thesis .
qed

lemma process_makkalu:
  assumes "admissible it1" "admissible it2"
  shows "process (New it1) it2 [0x0CAE, 0x0C95, 0x0CCD, 0x0C95, 0x0CB3, 0x0CC1] = ascii ''MK2L15''"
proof -
  have "process (New it1) it2 [0x0CAE, 0x0C95, 0x0CCD, 0x0C95, 0x0CB3, 0x0CC1] =
        process (New source_order) source_order [0x0CAE, 0x0C95, 0x0CCD, 0x0C95, 0x0CB3, 0x0CC1]"
    by (rule process_rearranged [OF assms, where ?k0.0 = "[0x0C95, 0x0CCD, 0x0C95]"
          and ?v0.0 = "ascii ''K2''" and ?s1.0 = "[0x0CAE, 0x0C95, 0x0CCD, 0x0C95, 0x0CB3, 0x0CC1]"])
      (simp_all add: run)
  then show ?thesis by (simp only: process_source_makkalu)
qed

lemma process_bangara:
  assumes "admissible it1" "admissible it2"
  shows "process (New it1) it2 [0x0CAC, 0x0C82, 0x0C97, 0x0CBE, 0x0CB0, 0x0CBE] = ascii ''B3KR''"
proof -
  have "process (New it1) it2 [0x0CAC, 0x0C82, 0x0C97, 0x0CBE, 0x0CB0, 0x0CBE] =
        process (New source_order) source_order [0x0CAC, 0x0C82, 0x0C97, 0x0CBE, 0x0CB0, 0x0CBE]"
    by (rule process_rearranged [OF assms, where ?k0.0 = "[0x0C95, 0x0CCD, 0x0C95]"
          and ?v0.0 = "ascii ''K2''" and ?s1.0 = "[0x0CAC, 0x0C82, 0x0C97, 0x0CBE, 0x0CB0, 0x0CBE]"])
      (simp_all add: run)
  also have "\<dots> = ascii ''B3KR''" by (simp add: run)
  finally show ?thesis .
qed

lemma process_anugraha:
  assumes "admissible it1" "admissible it2"
  shows "process (New it1) it2 [0x0C85, 0x0CA8, 0x0CC1, 0x0C97, 0x0CCD, 0x0CB0, 0x0CB9] =
         ascii ''AN5KRH''"
proof -
  have "process (New it1) it2 [0x0C85, 0x0CA8, 0x0CC1, 0x0C97, 0x0CCD, 0x0CB0, 0x0CB9] =
        process (New source_order) source_order
          [0x0C85, 0x0CA8, 0x0CC1, 0x0C97, 0x0CCD, 0x0CB0, 0x0CB9]"
    by (rule process_rearranged [OF assms, where ?k0.0 = "[0x0C95, 0x0CCD, 0x0C95]"
          and ?v0.0 = "ascii ''K2''"
          and ?s1.0 = "[0x0C85, 0x0CA8, 0x0CC1, 0x0C97, 0x0CCD, 0x0CB0, 0x0CB9]"])
      (simp_all add: run)
  also have "\<dots> = ascii ''AN5KRH''" by (simp add: run)
  finally show ?thesis .
qed

lemma process_vrtti:
  assumes "admissible it1" "admissible it2"
  shows "process (New it1) it2 [0x0CB5, 0x0CC3, 0x0CA4, 0x0CCD, 0x0CA4, 0x0CBF] = ascii ''VR04''"
proof -
  have "process (New it1) it2 [0x0CB5, 0x0CC3, 0x0CA4, 0x0CCD, 0x0CA4, 0x0CBF] =
        process (New source_order) source_order [0x0CB5, 0x0CC3, 0x0CA4, 0x0CCD, 0x0CA4, 0x0CBF]"
    by (rule process_rearranged [OF assms, where ?k0.0 = "[0x0C95, 0x0CCD, 0x0C95]"
          and ?v0.0 = "ascii ''K2''" and ?s1.0 = "[0x0CB5, 0x0CC3, 0x30, 0x0CBF]"])
      (simp_all add: run)
  then show ?thesis by (simp only: process_source_vrtti)
qed

lemma process_adhyaksha:
  assumes "admissible it1" "admissible it2"
  shows "process (New it1) it2 [0x0C85, 0x0CA7, 0x0CCD, 0x0CAF, 0x0C95, 0x0CCD, 0x0CB7] =
         ascii ''A0YKS1''"
proof -
  have "process (New it1) it2 [0x0C85, 0x0CA7, 0x0CCD, 0x0CAF, 0x0C95, 0x0CCD, 0x0CB7] =
        process (New source_order) source_order
          [0x0C85, 0x0CA7, 0x0CCD, 0x0CAF, 0x0C95, 0x0CCD, 0x0CB7]"
    by (rule process_rearranged [OF assms, where ?k0.0 = "[0x0C95, 0x0CCD, 0x0CB7]"
          and ?v0.0 = "ascii ''KS1''"
          and ?s1.0 = "[0x0C85, 0x0CA7, 0x0CCD, 0x0CAF, 0x0C95, 0x0CCD, 0x0CB7]"])
      (simp_all add: run)
  also have "\<dots> = ascii ''A0YKS1''" by (simp add: run)
  finally show ?thesis .
qed

lemma key_runs:
  "filter (\<lambda>r. \<not> regexKey0 r) (ascii ''053B'') = ascii ''03B''"
  "filter (\<lambda>r. \<not> regexKey1 r) (ascii ''053B'') = ascii ''03B''"
  "filter (\<lambda>r. \<not> regexKey0 r) (ascii ''MK2L15'') = ascii ''MKL''"
  "filter (\<lambda>r. \<not> regexKey1 r) (ascii ''MK2L15'') = ascii ''MKL1''"
  "filter (\<lambda>r. \<not> regexKey0 r) (ascii ''B3KR'') = ascii ''B3KR''"
  "filter (\<lambda>r. \<not> regexKey1 r) (ascii ''B3KR'') = ascii ''B3KR''"
  "filter (\<lambda>r. \<not> regexKey0 r) (ascii ''AN5KRH'') = ascii ''ANKRH''"
  "filter (\<lambda>r. \<not> regexKey1 r) (ascii ''AN5KRH'') = ascii ''ANKRH''"
  "filter (\<lambda>r. \<not> regexKey0 r) (ascii ''VR04'') = ascii ''VR0''"
  "filter (\<lambda>r. \<not> regexKey1 r) (ascii ''VR04'') = ascii ''VR0''"
  "filter (\<lambda>r. \<not> regexKey0 r) (ascii ''A0YKS1'') = ascii ''A0YKS''"
  "filter (\<lambda>r. \<not> regexKey1 r) (ascii ''A0YKS1'') = ascii ''A0YKS1''"
  "filter (\<lambda>r. \<not> regexKey0 r) (ascii ''3'') = ascii ''3''"
  "filter (\<lambda>r. \<not> regexKey1 r) (ascii ''3'') = ascii ''3''"
  by (simp_all add: ascii_def regexKey0_def regexKey1_def)

text \<open>
  Claim C1.  For the six words of the test table, under every order in which the maps may be
  visited when the encoder is built and when it runs, \<open>Encode\<close> returns the listed triple
  \<open>(key0, key1, key2)\<close>.
\<close>

theorem reference_vectors:
  assumes "admissible it1" "admissible it2"
  shows "Encode (New it1) it2 [0x0CA4, 0x0CC1, 0x0C82, 0x0CAC, 0x0CBE] =
           (ascii ''03B'', ascii ''03B'', ascii ''053B'') \<and>
         Encode (New it1) it2 [0x0CAE, 0x0C95, 0x0CCD, 0x0C95, 0x0CB3, 0x0CC1] =
           (ascii ''MKL'', ascii ''MKL1'', ascii ''MK2L15'') \<and>
         Encode (New it1) it2 [0x0CAC, 0x0C82, 0x0C97, 0x0CBE, 0x0CB0, 0x0CBE] =
           (ascii ''B3KR'', ascii ''B3KR'', ascii ''B3KR'') \<and>
         Encode (New it1) it2 [0x0C85, 0x0CA8, 0x0CC1, 0x0C97, 0x0CCD, 0x0CB0, 0x0CB9] =
           (ascii ''ANKRH'', ascii ''ANKRH'', ascii ''AN5KRH'') \<and>
         Encode (New it1) it2 [0x0CB5, 0x0CC3, 0x0CA4, 0x0CCD, 0x0CA4, 0x0CBF] =
           (ascii ''VR0'', ascii ''VR0'', ascii ''VR04'') \<and>
         Encode (New it1) it2 [0x0C85, 0x0CA7, 0x0CCD, 0x0CAF, 0x0C95, 0x0CCD, 0x0CB7] =
           (ascii ''A0YKS'', ascii ''A0YKS1'', ascii ''A0YKS1'')"
  unfolding Encode_keys process_tumba [OF assms] process_makkalu [OF assms]
    process_bangara [OF assms] process_anugraha [OF assms] process_vrtti [OF assms]
    process_adhyaksha [OF assms] key_runs
  by simp

theorem reference_vectors_witness:
  "Encode (New source_order) source_order [0x0CA4, 0x0CC1, 0x0C82, 0x0CAC, 0x0CBE] =
     (ascii ''03B'', ascii ''03B'', ascii ''053B'') \<and>
   Encode (New source_order) source_order [0x0CAE, 0x0C95, 0x0CCD, 0x0C95, 0x0CB3, 0x0CC1] =
     (ascii ''MKL'', ascii ''MKL1'', ascii ''MK2L15'')"
  using reference_vectors [OF admissible_source_order admissible_source_order] by simp

lemma TrimSpace_subset: "set (TrimSpace s) \<subseteq> set s"
proof -
  have "set (dropWhile P xs) \<subseteq> set xs" for P and xs :: gostring
    by (auto dest: set_dropWhileD)
  then have "set (dropWhile IsSpace (rev (dropWhile IsSpace s))) \<subseteq> set (dropWhile IsSpace s)"
    "set (dropWhile IsSpace s) \<subseteq> set s"
    by (metis set_rev)+
  then show ?thesis by (auto simp: TrimSpace_def)
qed

lemma script_filter_empty:
  assumes "\<forall>r\<in>set input. \<not> Kannada r"
  shows "ReplaceAllString regexNonTulu (TrimSpace input) [] = []"
  using assms TrimSpace_subset [of input]
  by (auto simp: ReplaceAllString_Nil regexNonTulu_def filter_empty_conv)

lemma substitute_empty:
  assumes "admissible it1" "admissible it2"
  shows "substitute (New it1) it2 [] = []"
proof -
  have "substitute (New it1) it2 [] = substitute (New source_order) source_order []"
    by (rule substitute_one_compound [OF assms, where ?k0.0 = "[0x0C95, 0x0CCD, 0x0C95]"
          and ?v0.0 = "ascii ''K2''" and ?s1.0 = "[]"])
      (simp_all add: run)
  also have "\<dots> = []" by (simp add: run)
  finally show ?thesis .
qed

lemma Kannada_block: "Kannada r \<Longrightarrow> 0x0C80 \<le> r \<and> r \<le> 0x0CFF"
  by (auto simp: Kannada_def Kannada_ranges_def)

text \<open>
  Claim C6.  An input without any rune of the script, the empty input included, yields three
  empty keys.  The hypothesis asks for no rune of the script property \<open>Kannada\<close>; by
  \<open>Kannada_block\<close> an input with no rune in the block U+0C80 to U+0CFF satisfies it.
\<close>

theorem no_script_rune_gives_empty_keys:
  assumes "admissible it1" "admissible it2"
    and "\<forall>r\<in>set input. \<not> Kannada r"
  shows "Encode (New it1) it2 input = ([], [], [])"
  unfolding Encode_keys process_def script_filter_empty [OF assms(3)]
    substitute_empty [OF assms(1,2)]
  by simp

theorem no_script_rune_gives_empty_keys_witness:
  "Encode (New source_order) source_order (ascii ''Tulu 42!'') = ([], [], []) \<and>
   Encode (New source_order) source_order [] = ([], [], [])"
  using no_script_rune_gives_empty_keys
      [OF admissible_source_order admissible_source_order, of "ascii ''Tulu 42!''"]
    no_script_rune_gives_empty_keys
      [OF admissible_source_order admissible_source_order, of "[]"]
  by (simp add: ascii_def Kannada_def Kannada_ranges_def)


section \<open>Compound glyphs\<close>

lemma replaceModifiedGlyphs_apply:
  "replaceModifiedGlyphs input glyphs r =
   apply_matches glyphs (FindAllStringSubmatch r False input) input"
  by (simp add: replaceModifiedGlyphs_def apply_matches_def)

lemma substitute_parts:
  "substitute k it s =
   ReplaceAllString regexAlphaNum (single_passes k it (compound_passes k it s)) []"
  by (simp add: substitute_def single_passes_def compound_passes_def Let_def)






lemma conjunct_key_cases:
  assumes "conjunct_key k"
  obtains c1 c2 where "k = [c1, 0x0CCD, c2]" "128 \<le> c1" "c1 \<noteq> 0x0CCD" "c1 \<noteq> 0x0CBE"
      "128 \<le> c2" "c2 \<noteq> 0x0CCD" "c2 \<noteq> 0x0CBE"
    | c1 c2 where "k = [c1, 0x0CCD, c2, 0x0CBE]" "128 \<le> c1" "c1 \<noteq> 0x0CCD" "c1 \<noteq> 0x0CBE"
      "128 \<le> c2" "c2 \<noteq> 0x0CCD" "c2 \<noteq> 0x0CBE"
  using assms unfolding conjunct_key_def
  by (auto split: list.splits)





lemma compound_entries:
  "\<forall>(k, v)\<in>set compounds. conjunct_key k \<and> v \<noteq> [] \<and> ascii_only v \<and> list_all alnum v \<and>
     list_all Kannada k"
  by (simp add: compounds_def conjunct_key_def ascii_only_def ascii_def alnum_def Kannada_def
      Kannada_ranges_def)

lemma compound_entry:
  assumes "(k, v) \<in> set compounds"
  shows "conjunct_key k" "v \<noteq> []" "ascii_only v" "list_all alnum v" "list_all Kannada k"
  using assms compound_entries by blast+
























lemma single_passes_rearranged:
  assumes it1: "admissible it1" and it2: "admissible it2"
  shows "single_passes (New it1) it2 s = single_passes (New source_order) source_order s"
proof -
  have r: "replaceModifiedGlyphs x T (modConsonants (New it1)) =
           replaceModifiedGlyphs x T (modConsonants (New source_order))"
    "replaceModifiedGlyphs x T (modVowels (New it1)) =
     replaceModifiedGlyphs x T (modVowels (New source_order))" for x T
    by (rule replaceModifiedGlyphs_rearranged, rule New_rearranged [OF it1])+
  have g: "replaceGrouped (consonants_seq it2) x = replaceGrouped consonants x"
    "replaceGrouped (vowels_seq it2) x = replaceGrouped vowels x"
    "replacePlain (modifiers_seq it2) x = replacePlain modifiers x" for x
    by (simp_all add: replaceGrouped_rearranged replacePlain_rearranged glyph_tables
        admissible_mset [OF it2])
  show ?thesis
    unfolding single_passes_def Let_def r g source_order_fields ..
qed



lemma filter_dropWhile:
  assumes "\<And>x. Q x \<Longrightarrow> \<not> P x"
  shows "filter P (dropWhile Q xs) = filter P xs"
  by (induction xs) (simp_all add: assms)

lemma IsSpace_not_Kannada: "IsSpace r \<Longrightarrow> \<not> Kannada r"
  by (auto simp: IsSpace_def Kannada_def Kannada_ranges_def)

lemma script_filter: "ReplaceAllString regexNonTulu (TrimSpace s) [] = filter Kannada s"
proof -
  have "filter Kannada (TrimSpace s) = filter Kannada s"
    unfolding TrimSpace_def
    by (simp add: rev_filter [symmetric] filter_dropWhile IsSpace_not_Kannada)
  then show ?thesis by (simp add: ReplaceAllString_Nil regexNonTulu_def)
qed


lemma process_parts:
  "process k it input =
   ReplaceAllString regexAlphaNum
     (single_passes k it (compound_passes k it (filter Kannada input))) []"
  by (simp add: process_def script_filter substitute_parts)


lemma replace_from_short: "length s < length h \<Longrightarrow> replace_from s h w = s"
proof (induction s)
  case Nil
  then show ?case by simp
next
  case (Cons c s)
  then have "\<not> prefix h (c # s)" by (auto dest: prefix_length_le)
  with Cons show ?case by simp
qed











section \<open>A modifier alone\<close>

lemma ReplaceAll_short: "length s < length h \<Longrightarrow> ReplaceAll s h w = s"
  by (auto simp: ReplaceAll_def replace_from_short)

lemma apply_matches_short:
  assumes "\<forall>(k, v)\<in>set T. length s < length k"
  shows "apply_matches T ms s = s"
proof -
  have step: "(case map_of T m of Some rep \<Rightarrow> ReplaceAll s m rep | None \<Rightarrow> s) = s" for m
  proof (cases "map_of T m")
    case None
    then show ?thesis by simp
  next
    case (Some rep)
    then have "(m, rep) \<in> set T" by (rule map_of_SomeD)
    with assms have "length s < length m" by blast
    with Some show ?thesis by (simp add: ReplaceAll_short)
  qed
  have inner: "fold (\<lambda>m inp'. case map_of T m of Some rep \<Rightarrow> ReplaceAll inp' m rep
                                                 | None \<Rightarrow> inp') matches s = s" for matches
    by (induction matches) (simp_all add: step)
  show ?thesis
    unfolding apply_matches_def by (induction ms) (simp_all add: inner)
qed

lemma replaceGrouped_short:
  assumes "\<forall>(k, v)\<in>set xs. length s < length k"
  shows "replaceGrouped xs s = s"
  using assms unfolding replaceGrouped_def
  by (induction xs) (auto simp: ReplaceAll_short)

lemma compound_passes_short:
  assumes it: "admissible it" and s: "length s < 3"
  shows "compound_passes k it s = s"
proof -
  have long: "\<forall>(h, rep)\<in>set compounds. length s < length h"
  proof (clarify)
    fix h rep assume "(h, rep) \<in> set compounds"
    from compound_entry(1) [OF this] have "3 \<le> length h" by (auto elim: conjunct_key_cases)
    with s show "length s < length h" by simp
  qed
  from admissible_mset(1) [OF it] have "set (compounds_seq it) = set compounds"
    by (rule mset_eq_setD)
  with long have "\<forall>(h, rep)\<in>set (compounds_seq it). length s < length h" by simp
  then show ?thesis
    unfolding compound_passes_def replaceModifiedGlyphs_apply
    by (simp add: apply_matches_short [OF long] replaceGrouped_short)
qed

lemma modifier_alone_runs:
  "ReplaceAllString regexAlphaNum
     (single_passes (New source_order) source_order [0x0CBE]) [] = ascii ''''"
  "ReplaceAllString regexAlphaNum
     (single_passes (New source_order) source_order [0x0C83]) [] = ascii ''''"
  "ReplaceAllString regexAlphaNum
     (single_passes (New source_order) source_order [0x0CCD]) [] = ascii ''''"
  "ReplaceAllString regexAlphaNum
     (single_passes (New source_order) source_order [0x0CC3]) [] = ascii ''R''"
  "ReplaceAllString regexAlphaNum
     (single_passes (New source_order) source_order [0x0C82]) [] = ascii ''3''"
  "ReplaceAllString regexAlphaNum
     (single_passes (New source_order) source_order [0x0CBF]) [] = ascii ''4''"
  "ReplaceAllString regexAlphaNum
     (single_passes (New source_order) source_order [0x0CC0]) [] = ascii ''4''"
  "ReplaceAllString regexAlphaNum
     (single_passes (New source_order) source_order [0x0CC1]) [] = ascii ''5''"
  "ReplaceAllString regexAlphaNum
     (single_passes (New source_order) source_order [0x0CC2]) [] = ascii ''5''"
  "ReplaceAllString regexAlphaNum
     (single_passes (New source_order) source_order [0x0CC6]) [] = ascii ''6''"
  "ReplaceAllString regexAlphaNum
     (single_passes (New source_order) source_order [0x0CC7]) [] = ascii ''6''"
  "ReplaceAllString regexAlphaNum
     (single_passes (New source_order) source_order [0x0CC8]) [] = ascii ''7''"
  "ReplaceAllString regexAlphaNum
     (single_passes (New source_order) source_order [0x0CCA]) [] = ascii ''8''"
  "ReplaceAllString regexAlphaNum
     (single_passes (New source_order) source_order [0x0CCB]) [] = ascii ''8''"
  "ReplaceAllString regexAlphaNum
     (single_passes (New source_order) source_order [0x0CCC]) [] = ascii ''9''"
  by (simp_all add: single_passes_def run)

lemma modifier_alone_source:
  "\<forall>(m, d)\<in>set modifiers. list_all Kannada m \<longrightarrow>
     ReplaceAllString regexAlphaNum (single_passes (New source_order) source_order m) [] = d"
  by (simp add: modifiers_def modifier_alone_runs Kannada_def Kannada_ranges_def)

lemma modifier_digit_keys:
  "\<forall>(m, d)\<in>set modifiers. d \<noteq> [] \<longrightarrow> list_all digit d \<longrightarrow>
     (filter (\<lambda>r. \<not> regexKey1 r) d = d \<or> filter (\<lambda>r. \<not> regexKey1 r) d = []) \<and>
     (filter (\<lambda>r. \<not> regexKey0 r) d = d \<or> filter (\<lambda>r. \<not> regexKey0 r) d = [])"
  by (simp add: modifiers_def ascii_def regexKey0_def regexKey1_def digit_def)

lemma modifier_entries: "\<forall>(m, d)\<in>set modifiers. length m = 1"
  by (simp add: modifiers_def)

lemma process_modifier_alone:
  assumes it1: "admissible it1" and it2: "admissible it2"
    and md: "(m, d) \<in> set modifiers" and k: "list_all Kannada m"
  shows "process (New it1) it2 m = d"
proof -
  from bspec [OF modifier_entries md] have "length m = 1" by simp
  then have short: "length m < 3" by simp
  from k have f: "filter Kannada m = m" by (simp add: filter_id_conv list_all_iff)
  from bspec [OF modifier_alone_source md] k
  have run: "ReplaceAllString regexAlphaNum
               (single_passes (New source_order) source_order m) [] = d"
    by simp
  have "process (New it1) it2 m =
        ReplaceAllString regexAlphaNum
          (single_passes (New it1) it2 (compound_passes (New it1) it2 (filter Kannada m))) []"
    by (rule process_parts)
  also have "compound_passes (New it1) it2 (filter Kannada m) = m"
    by (simp only: f compound_passes_short [OF it2 short])
  also have "single_passes (New it1) it2 m = single_passes (New source_order) source_order m"
    using it1 it2 by (rule single_passes_rearranged)
  finally show ?thesis by (simp only: run)
qed

text \<open>
  Claim C9.  A modifier with no glyph before it is still encoded.  For every modifier of the
  script whose code is a digit, the input that consists of this modifier alone yields that
  digit as \<open>key2\<close>, and \<open>key1\<close> and \<open>key0\<close> are that digit or empty: the triple is not
  empty and holds nothing but the digit.  For the anusvara sign (U+0C82) the triple is
  \<open>(3, 3, 3)\<close>.  So a key may hold a digit attached to no letter.
\<close>

theorem lone_modifier_is_encoded:
  assumes "admissible it1" "admissible it2"
  shows "Encode (New it1) it2 [0x0C82] = (ascii ''3'', ascii ''3'', ascii ''3'') \<and>
         (\<forall>(m, d)\<in>set modifiers. list_all Kannada m \<longrightarrow> d \<noteq> [] \<longrightarrow> list_all digit d \<longrightarrow>
            (case Encode (New it1) it2 m of (key0, key1, key2) \<Rightarrow>
               key2 = d \<and> (key1 = d \<or> key1 = []) \<and> (key0 = d \<or> key0 = [])))"
proof (rule conjI)
  have "([0x0C82], ascii ''3'') \<in> set modifiers" "list_all Kannada [0x0C82]"
    by (simp_all add: modifiers_def Kannada_def Kannada_ranges_def)
  from process_modifier_alone [OF assms this]
  show "Encode (New it1) it2 [0x0C82] = (ascii ''3'', ascii ''3'', ascii ''3'')"
    unfolding Encode_keys by (simp add: key_runs)
next
  have "list_all Kannada m \<longrightarrow> d \<noteq> [] \<longrightarrow> list_all digit d \<longrightarrow>
          (case Encode (New it1) it2 m of (key0, key1, key2) \<Rightarrow>
             key2 = d \<and> (key1 = d \<or> key1 = []) \<and> (key0 = d \<or> key0 = []))"
    if md: "(m, d) \<in> set modifiers" for m d
  proof (intro impI)
    assume k: "list_all Kannada m" and d: "d \<noteq> []" "list_all digit d"
    from md d modifier_digit_keys
    have "(filter (\<lambda>r. \<not> regexKey1 r) d = d \<or> filter (\<lambda>r. \<not> regexKey1 r) d = []) \<and>
          (filter (\<lambda>r. \<not> regexKey0 r) d = d \<or> filter (\<lambda>r. \<not> regexKey0 r) d = [])"
      by blast
    then show "case Encode (New it1) it2 m of (key0, key1, key2) \<Rightarrow>
                 key2 = d \<and> (key1 = d \<or> key1 = []) \<and> (key0 = d \<or> key0 = [])"
      unfolding Encode_keys process_modifier_alone [OF assms md k] prod.case by blast
  qed
  note each = this
  show "\<forall>(m, d)\<in>set modifiers. list_all Kannada m \<longrightarrow> d \<noteq> [] \<longrightarrow> list_all digit d \<longrightarrow>
          (case Encode (New it1) it2 m of (key0, key1, key2) \<Rightarrow>
             key2 = d \<and> (key1 = d \<or> key1 = []) \<and> (key0 = d \<or> key0 = []))"
  proof (rule ballI)
    fix x assume x: "x \<in> set modifiers"
    obtain m d where xe: "x = (m, d)" by (cases x)
    from x have "(m, d) \<in> set modifiers" unfolding xe .
    from each [OF this]
    show "case x of (m, d) \<Rightarrow> list_all Kannada m \<longrightarrow> d \<noteq> [] \<longrightarrow> list_all digit d \<longrightarrow>
            (case Encode (New it1) it2 m of (key0, key1, key2) \<Rightarrow>
               key2 = d \<and> (key1 = d \<or> key1 = []) \<and> (key0 = d \<or> key0 = []))"
      unfolding xe prod.case .
  qed
qed

theorem lone_modifier_is_encoded_witness:
  "Encode (New source_order) source_order [0x0C82] = (ascii ''3'', ascii ''3'', ascii ''3'') \<and>
   snd (snd (Encode (New source_order) source_order [0x0CBF])) = ascii ''4''"
proof -
  have m: "([0x0CBF], ascii ''4'') \<in> set modifiers"
    and k: "list_all Kannada [0x0CBF]"
    and d: "ascii ''4'' \<noteq> []" "list_all digit (ascii ''4'')"
    by (simp_all add: modifiers_def Kannada_def Kannada_ranges_def ascii_def digit_def)
  note inst = lone_modifier_is_encoded [OF admissible_source_order admissible_source_order]
  from inst have 1:
    "Encode (New source_order) source_order [0x0C82] = (ascii ''3'', ascii ''3'', ascii ''3'')"
    by (rule conjunct1)
  from inst have "\<forall>(m, d)\<in>set modifiers. list_all Kannada m \<longrightarrow> d \<noteq> [] \<longrightarrow> list_all digit d \<longrightarrow>
      (case Encode (New source_order) source_order m of (key0, key1, key2) \<Rightarrow>
         key2 = d \<and> (key1 = d \<or> key1 = []) \<and> (key0 = d \<or> key0 = []))"
    by (rule conjunct2)
  from bspec [OF this m] k d
  have "case Encode (New source_order) source_order [0x0CBF] of (key0, key1, key2) \<Rightarrow>
          key2 = ascii ''4'' \<and> (key1 = ascii ''4'' \<or> key1 = []) \<and>
          (key0 = ascii ''4'' \<or> key0 = [])"
    by (simp only: prod.case simp_thms)
  then have "snd (snd (Encode (New source_order) source_order [0x0CBF])) = ascii ''4''"
    by (cases "Encode (New source_order) source_order [0x0CBF]") simp
  with 1 show ?thesis by (rule conjI)
qed

section \<open>Totality and the failure of the second file\<close>

text \<open>
  The encoder of \<^verbatim>\<open>tlphone.go\<close> has no failing step: its patterns are compiled when the
  package is loaded, and every key it returns is made of the runes 0-9 and A-Z.
\<close>

lemma MustCompile_Kannada: "MustCompile_not_in ''Kannada'' = Inr regexNonTulu"
  by (simp add: MustCompile_not_in_def Compile_not_in_def unicodeTable_def regexNonTulu_def
      fun_eq_iff)

lemma Encode_alnum:
  "case Encode k it input of (key0, key1, key2) \<Rightarrow>
     (\<forall>r\<in>set key0. alnum r) \<and> (\<forall>r\<in>set key1. alnum r) \<and> (\<forall>r\<in>set key2. alnum r)"
  by (auto simp: Encode_keys process_alnum)

lemma regexNonTulu'_nil: "regexNonTulu' = None"
  by (simp add: regexNonTulu'_def Compile_not_in_def unicodeTable_def)

text \<open>
  Claim C2.  \<open>Encode\<close> never fails and returns three strings over 0-9 and A-Z.  The encoder
  of the second file does fail: its script filter is a nil pointer, and the call on the first
  test word panics instead of returning \<open>(03B, 03B, 053B)\<close>.
\<close>

theorem second_file_Encode_panics:
  "Encode' (New source_order) source_order [0x0CA4, 0x0CC1, 0x0C82, 0x0CAC, 0x0CBE] =
   Inl NilPointerDereference"
  by (simp add: Encode'_def process'_def regexNonTulu'_nil)

text \<open>
  Claim C8.  A pattern that does not compile stops the program when it is loaded.  In the
  second file it does not: \<^verbatim>\<open>MustCompile\<close> would stop on \<^verbatim>\<open>[\P{Tulu}]\<close>, but the file calls
  \<^verbatim>\<open>Compile\<close> and drops the error, so loading goes on with a nil pointer as script filter,
  and the failure shows only when \<open>Encode\<close> is called, here on the empty string.
\<close>

theorem second_file_tolerates_compile_error:
  "MustCompile_not_in ''Tulu'' = Inl CompileError \<and> regexNonTulu' = None \<and>
   Encode' (New source_order) source_order [] = Inl NilPointerDereference"
  by (simp add: MustCompile_not_in_def Compile_not_in_def unicodeTable_def regexNonTulu'_def
      Encode'_def process'_def)

end
